theory Spec2Isabelle
  imports Complex_Main "HOL-Library.Sublist" "HOL-Library.Multiset"
begin

section \<open>The OTU abundance table and the low-abundance filter\<close>

text \<open>
  The embedding follows \<^verbatim>\<open>filter_low_abundance_otus\<close> of
  \<^verbatim>\<open>Amplicaon_processing2.py\<close>. The table read by \<^verbatim>\<open>pd.read_csv(..., index_col=0)\<close>
  is a data frame: the row labels (OTU ids) and, per sample id, one column of cells in row
  order. Cells are integers; pandas stores them as 64-bit signed integers, and
  \<^verbatim>\<open>Series.sum\<close> adds them in that type, so the column sum wraps around modulo \<open>2 ^ 64\<close>.

  The threshold \<^verbatim>\<open>filter_min_freq\<close> is a float and \<^verbatim>\<open>x / total\<close> is a float quotient. Both
  are modelled by the rational numbers they stand for: the threshold is the number the user
  typed and the quotient is exact. Rounding to binary64 is not modelled.
\<close>

datatype py_error = DivisionByZero | KeyError

record otu_table =
  index :: "string list"
  columns :: "(string \<times> int list) list"

definition int64 :: "int \<Rightarrow> int" where
  "int64 n = (n + 2 ^ 63) mod 2 ^ 64 - 2 ^ 63"

definition series_sum :: "int list \<Rightarrow> int" where
  "series_sum col = int64 (sum_list col)"

text \<open>
  \<^verbatim>\<open>x / total\<close>. A zero divisor is a distinguished outcome of the model
  (\<^verbatim>\<open>ZeroDivisionError\<close> on Python numbers; numpy scalars give a warning and inf or nan),
  so that a theorem can say that the quotient is never formed on a zero total.
\<close>

definition truediv :: "int \<Rightarrow> int \<Rightarrow> py_error + rat" where
  "truediv x tot = (if tot = 0 then Inl DivisionByZero else Inr (of_int x / of_int tot))"

text \<open>
  The lambda of line 383:
  \<^verbatim>\<open>lambda x: x if (x >= filter_min_count and (x / total) >= filter_min_freq) else 0\<close>.
  Python's \<^verbatim>\<open>and\<close> evaluates its right operand only when the left one holds.
\<close>

definition filter_cell :: "int \<Rightarrow> rat \<Rightarrow> int \<Rightarrow> int \<Rightarrow> py_error + int" where
  "filter_cell filter_min_count filter_min_freq tot x =
     (if x \<ge> filter_min_count
      then (case truediv x tot of
              Inl e \<Rightarrow> Inl e
            | Inr q \<Rightarrow> Inr (if q \<ge> filter_min_freq then x else 0))
      else Inr 0)"

text \<open>\<^verbatim>\<open>Series.apply\<close>: the function is applied cell by cell, in row order; the first
  failure ends the traversal.\<close>

fun apply_series :: "('a \<Rightarrow> py_error + 'b) \<Rightarrow> 'a list \<Rightarrow> py_error + 'b list" where
  "apply_series f [] = Inr []"
| "apply_series f (x # xs) =
     (case f x of
        Inl e \<Rightarrow> Inl e
      | Inr y \<Rightarrow> (case apply_series f xs of Inl e \<Rightarrow> Inl e | Inr ys \<Rightarrow> Inr (y # ys)))"

text \<open>\<^verbatim>\<open>otu_df[sample]\<close> and \<^verbatim>\<open>otu_df_filtered[sample] = ...\<close>.\<close>

definition get_column :: "otu_table \<Rightarrow> string \<Rightarrow> py_error + int list" where
  "get_column df sample =
     (case map_of (columns df) sample of None \<Rightarrow> Inl KeyError | Some col \<Rightarrow> Inr col)"

fun assign :: "('k \<times> 'v) list \<Rightarrow> 'k \<Rightarrow> 'v \<Rightarrow> ('k \<times> 'v) list" where
  "assign [] sample col = [(sample, col)]"
| "assign ((s, c) # cs) sample col =
     (if s = sample then (s, col) # cs else (s, c) # assign cs sample col)"

definition set_column :: "otu_table \<Rightarrow> string \<Rightarrow> int list \<Rightarrow> otu_table" where
  "set_column df sample col = df\<lparr>columns := assign (columns df) sample col\<rparr>"

text \<open>
  The body of the loop of lines 380 to 383 for one sample: the total and the cells are
  read from \<^verbatim>\<open>otu_df\<close>, the result is stored into \<^verbatim>\<open>otu_df_filtered\<close>.
\<close>

definition filter_sample ::
  "int \<Rightarrow> rat \<Rightarrow> otu_table \<Rightarrow> string \<Rightarrow> otu_table \<Rightarrow> py_error + otu_table" where
  "filter_sample filter_min_count filter_min_freq otu_df sample otu_df_filtered =
     (case get_column otu_df sample of
        Inl e \<Rightarrow> Inl e
      | Inr col \<Rightarrow>
          (let tot = series_sum col in
           case apply_series (filter_cell filter_min_count filter_min_freq tot) col of
             Inl e \<Rightarrow> Inl e
           | Inr col' \<Rightarrow> Inr (set_column otu_df_filtered sample col')))"

text \<open>The loop over a list of sample ids; the source runs it over \<^verbatim>\<open>otu_df.columns\<close>.\<close>

fun filter_loop ::
  "int \<Rightarrow> rat \<Rightarrow> otu_table \<Rightarrow> string list \<Rightarrow> otu_table \<Rightarrow> py_error + otu_table" where
  "filter_loop mc mf otu_df [] otu_df_filtered = Inr otu_df_filtered"
| "filter_loop mc mf otu_df (sample # rest) otu_df_filtered =
     (case filter_sample mc mf otu_df sample otu_df_filtered of
        Inl e \<Rightarrow> Inl e
      | Inr df' \<Rightarrow> filter_loop mc mf otu_df rest df')"

definition filter_table :: "int \<Rightarrow> rat \<Rightarrow> otu_table \<Rightarrow> py_error + otu_table" where
  "filter_table filter_min_count filter_min_freq otu_df =
     filter_loop filter_min_count filter_min_freq otu_df (map fst (columns otu_df)) otu_df"

text \<open>
  The tables of the data model: cells are non-negative, every column has one cell per row
  label, sample ids are distinct (\<^verbatim>\<open>read_csv\<close> renames duplicates), and each column sum
  fits the 64-bit cell type.
\<close>

definition wf_column :: "int list \<Rightarrow> bool" where
  "wf_column col \<longleftrightarrow> (\<forall>x \<in> set col. 0 \<le> x) \<and> sum_list col < 2 ^ 63"

definition wf_table :: "otu_table \<Rightarrow> bool" where
  "wf_table df \<longleftrightarrow>
     distinct (map fst (columns df)) \<and>
     (\<forall>(s, col) \<in> set (columns df). length col = length (index df) \<and> wf_column col)"

text \<open>What the specification says a cell becomes, given the column total.\<close>

definition spec_cell :: "int \<Rightarrow> rat \<Rightarrow> int \<Rightarrow> int \<Rightarrow> int" where
  "spec_cell min_count min_freq tot x =
     (if x \<ge> min_count \<and> of_int x / of_int tot \<ge> min_freq then x else 0)"

definition spec_column :: "int \<Rightarrow> rat \<Rightarrow> int list \<Rightarrow> int list" where
  "spec_column min_count min_freq col = map (spec_cell min_count min_freq (sum_list col)) col"

definition spec_table :: "int \<Rightarrow> rat \<Rightarrow> otu_table \<Rightarrow> otu_table" where
  "spec_table min_count min_freq df =
     df\<lparr>columns := map (\<lambda>(s, col). (s, spec_column min_count min_freq col)) (columns df)\<rparr>"

text \<open>Two auxiliary functions on labelled columns, used to describe the effect of the
  loop: \<open>put\<close> replaces the column of one sample, \<open>upd\<close> recomputes the columns of a set of
  samples.\<close>

definition put :: "string \<Rightarrow> int list \<Rightarrow> (string \<times> int list) \<Rightarrow> (string \<times> int list)" where
  "put s col p = (if fst p = s then (s, col) else p)"

definition upd :: "(string \<Rightarrow> int list) \<Rightarrow> string set \<Rightarrow> (string \<times> int list) \<Rightarrow> (string \<times> int list)" where
  "upd F S p = (if fst p \<in> S then (fst p, F (fst p)) else p)"

text \<open>The two scenario tables of the specification: one sample \<open>S1\<close>, three OTUs.\<close>

definition S1_table :: otu_table where
  "S1_table = \<lparr>index = [''OTU_1'', ''OTU_2'', ''OTU_3''], columns = [(''S1'', [120, 40, 5])]\<rparr>"

definition S6_table :: otu_table where
  "S6_table = \<lparr>index = [''OTU_1'', ''OTU_2'', ''OTU_3''], columns = [(''S1'', [9, 10, 1000])]\<rparr>"



definition zero_sample :: otu_table where
  "zero_sample = \<lparr>index = [''OTU_1'', ''OTU_2''],
                  columns = [(''S1'', [120, 40]), (''S2'', [0, 0])]\<rparr>"

section \<open>Partition of the OTU sequences into passed and failed\<close>


text \<open>Python's \<^verbatim>\<open>otu in rid\<close> on strings: \<^verbatim>\<open>otu\<close> occurs in \<^verbatim>\<open>rid\<close> as a contiguous block.\<close>

fun str_in :: "string \<Rightarrow> string \<Rightarrow> bool" where
  "str_in sub [] = (sub = [])"
| "str_in sub (c # cs) = (prefix sub (c # cs) \<or> str_in sub cs)"

text \<open>
  A sequence record is its identifier and its sequence. \<^verbatim>\<open>all_otus\<close> is the dictionary of
  lines 409 to 412, in insertion order: a repeated identifier keeps its place and takes the
  later record.
\<close>

type_synonym seq_record = "string \<times> string"







definition low_records :: "seq_record list" where
  "low_records = [(''OTU_1;size=120'', ''ACGT''), (''OTU_2;size=40'', ''TTGA'')]"

section \<open>Interactive collection of the thresholds\<close>

text \<open>
  Console input is a list of lines, consumed from the front. \<^verbatim>\<open>str.strip\<close> removes the
  leading and trailing white space (the ASCII white-space characters of Python).
\<close>

definition is_space :: "char \<Rightarrow> bool" where
  "is_space c \<longleftrightarrow> (let n = (of_char c :: nat) in (9 \<le> n \<and> n \<le> 13) \<or> (28 \<le> n \<and> n \<le> 32))"

definition strip :: "string \<Rightarrow> string" where
  "strip s = rev (dropWhile is_space (rev (dropWhile is_space s)))"

text \<open>
  Lines 347 to 355. \<^verbatim>\<open>py_int\<close> stands for Python's \<^verbatim>\<open>int\<close> on strings: \<open>None\<close> when it
  raises \<^verbatim>\<open>ValueError\<close>. Both the failure and a value that is not positive lead to the error
  message and the next prompt. When the input is exhausted, \<^verbatim>\<open>input\<close> raises \<^verbatim>\<open>EOFError\<close> inside
  the \<^verbatim>\<open>try\<close>, the bare \<^verbatim>\<open>except\<close> swallows it and the loop never ends: the result \<open>None\<close>.
  A result \<open>Some (n, rest)\<close> is the accepted value and the input that is left.
\<close>

fun collect_min_count :: "(string \<Rightarrow> int option) \<Rightarrow> string list \<Rightarrow> (int \<times> string list) option" where
  "collect_min_count py_int [] = None"
| "collect_min_count py_int (line # rest) =
     (case py_int (strip line) of
        None \<Rightarrow> collect_min_count py_int rest
      | Some filter_min_count \<Rightarrow>
          if filter_min_count > 0 then Some (filter_min_count, rest)
          else collect_min_count py_int rest)"

text \<open>
  Lines 358 to 364. \<^verbatim>\<open>py_float\<close> stands for Python's \<^verbatim>\<open>float\<close> on strings. The loop ends at
  the first line that \<^verbatim>\<open>float\<close> accepts; there is no test on the value.
\<close>

fun collect_min_freq :: "(string \<Rightarrow> 'f option) \<Rightarrow> string list \<Rightarrow> ('f \<times> string list) option" where
  "collect_min_freq py_float [] = None"
| "collect_min_freq py_float (line # rest) =
     (case py_float (strip line) of
        None \<Rightarrow> collect_min_freq py_float rest
      | Some filter_min_freq \<Rightarrow> Some (filter_min_freq, rest))"

text \<open>
  The decimal fragment of \<^verbatim>\<open>int\<close> and \<^verbatim>\<open>float\<close>, used to run the loops on concrete input:
  an optional sign and ASCII digits, for \<^verbatim>\<open>float\<close> with an optional decimal point. On such
  strings Python gives the number written; every other string is outside the fragment and
  is mapped to \<open>None\<close> here.
\<close>

fun digits_val :: "string \<Rightarrow> nat \<Rightarrow> nat option" where
  "digits_val [] acc = Some acc"
| "digits_val (c # cs) acc =
     (let n = (of_char c :: nat)
      in if 48 \<le> n \<and> n \<le> 57 then digits_val cs (10 * acc + (n - 48)) else None)"

definition unsigned_int :: "string \<Rightarrow> int option" where
  "unsigned_int s = (if s = [] then None else map_option int (digits_val s 0))"

definition dec_int :: "string \<Rightarrow> int option" where
  "dec_int s =
     (case s of
        [] \<Rightarrow> None
      | c # cs \<Rightarrow>
          if c = CHR ''-'' then map_option uminus (unsigned_int cs)
          else if c = CHR ''+'' then unsigned_int cs
          else unsigned_int s)"

definition unsigned_float :: "string \<Rightarrow> rat option" where
  "unsigned_float s =
     (let ip = takeWhile (\<lambda>c. c \<noteq> CHR ''.'') s;
          fp = drop 1 (dropWhile (\<lambda>c. c \<noteq> CHR ''.'') s)
      in if ip = [] \<and> fp = [] then None
         else (case (digits_val ip 0, digits_val fp 0) of
                 (Some i, Some f) \<Rightarrow> Some (of_nat i + of_nat f / 10 ^ length fp)
               | _ \<Rightarrow> None))"

definition dec_float :: "string \<Rightarrow> rat option" where
  "dec_float s =
     (case s of
        [] \<Rightarrow> None
      | c # cs \<Rightarrow>
          if c = CHR ''-'' then map_option uminus (unsigned_float cs)
          else if c = CHR ''+'' then unsigned_float cs
          else unsigned_float s)"

section \<open>The demultiplex stage\<close>

text \<open>
  Lines 528 to 555 of \<^verbatim>\<open>Amplicaon_processing2.py\<close> (lines 162 to 186 of
  \<^verbatim>\<open>Amplicaon_processing.py\<close> are the same loop). A row of the metadata table has six text
  fields. The file system is a predicate on paths, taken as unchanged by the stage as far
  as the raw input files go; whether an external command exits with status zero is a
  predicate on its argument vector.
\<close>

record metadata_row =
  run_id :: string
  sample_id :: string
  forward_primer :: string
  reverse_primer :: string
  forward_file :: string
  reverse_file :: string

record demux_env =
  cutadapt :: string
  threads :: int
  input_dir :: string
  demultiplex_dir :: string
  path_exists :: "string \<Rightarrow> bool"
  exit_ok :: "string list \<Rightarrow> bool"

text \<open>\<^verbatim>\<open>os.path.join\<close> of two components (POSIX) and \<^verbatim>\<open>str\<close> of an integer.\<close>

definition path_join :: "string \<Rightarrow> string \<Rightarrow> string" where
  "path_join a b =
     (case b of
        [] \<Rightarrow> (if a = [] \<or> last a = CHR ''/'' then a else a @ ''/'')
      | c # _ \<Rightarrow>
          if c = CHR ''/'' then b
          else if a = [] \<or> last a = CHR ''/'' then a @ b
          else a @ ''/'' @ b)"

fun str_nat :: "nat \<Rightarrow> string" where
  "str_nat n =
     (if n < 10 then [''0123456789'' ! n]
      else str_nat (n div 10) @ [''0123456789'' ! (n mod 10)])"

definition str_int :: "int \<Rightarrow> string" where
  "str_int i = (if i < 0 then CHR ''-'' # str_nat (nat (- i)) else str_nat (nat i))"

text \<open>The argument vector of lines 543 to 553.\<close>

definition cutadapt_cmd :: "demux_env \<Rightarrow> metadata_row \<Rightarrow> string list" where
  "cutadapt_cmd env row =
     [cutadapt env,
      ''-g'', ''^'' @ forward_primer row,
      ''-G'', ''^'' @ reverse_primer row,
      ''-o'', path_join (demultiplex_dir env) (sample_id row @ ''.R1.fastq''),
      ''-p'', path_join (demultiplex_dir env) (sample_id row @ ''.R2.fastq''),
      ''-j'', str_int (threads env),
      ''--discard-untrimmed'',
      ''-e'', ''0.1'',
      path_join (input_dir env) (forward_file row),
      path_join (input_dir env) (reverse_file row)]"

definition files_present :: "demux_env \<Rightarrow> metadata_row \<Rightarrow> bool" where
  "files_present env row \<longleftrightarrow>
     path_exists env (path_join (input_dir env) (forward_file row)) \<and>
     path_exists env (path_join (input_dir env) (reverse_file row))"

text \<open>
  What the stage does, in order: a logged warning naming the skipped sample, or an external
  command handed to \<^verbatim>\<open>run_command\<close>. \<^verbatim>\<open>run_command\<close> re-raises the error of a command that
  exits with a non-zero status, which ends the loop: the outcome \<open>Aborted\<close>.
\<close>

datatype event = Warning string | Command "string list"

datatype outcome = Completed | Aborted

fun demultiplex :: "demux_env \<Rightarrow> metadata_row list \<Rightarrow> outcome \<times> event list" where
  "demultiplex env [] = (Completed, [])"
| "demultiplex env (row # rest) =
     (if \<not> path_exists env (path_join (input_dir env) (forward_file row))
         \<or> \<not> path_exists env (path_join (input_dir env) (reverse_file row))
      then (case demultiplex env rest of (out, events) \<Rightarrow> (out, Warning (sample_id row) # events))
      else (let cmd = cutadapt_cmd env row
            in if exit_ok env cmd
               then (case demultiplex env rest of (out, events) \<Rightarrow> (out, Command cmd # events))
               else (Aborted, [Command cmd])))"

text \<open>Two samples with their files in place, and an environment in which every file
  exists and commands succeed or fail as given.\<close>

definition sample_A :: metadata_row where
  "sample_A = \<lparr>run_id = ''run1'', sample_id = ''A'', forward_primer = ''ACGT'',
                reverse_primer = ''TTGA'', forward_file = ''A_1.fq'', reverse_file = ''A_2.fq''\<rparr>"

definition sample_B :: metadata_row where
  "sample_B = \<lparr>run_id = ''run1'', sample_id = ''B'', forward_primer = ''GGCC'',
                reverse_primer = ''CATG'', forward_file = ''B_1.fq'', reverse_file = ''B_2.fq''\<rparr>"

definition demo_env :: "(string \<Rightarrow> bool) \<Rightarrow> (string list \<Rightarrow> bool) \<Rightarrow> demux_env" where
  "demo_env ex ok =
     \<lparr>cutadapt = ''/usr/bin/cutadapt'', threads = 4, input_dir = ''/data/raw'',
      demultiplex_dir = ''/data/out/1-demultiplex'', path_exists = ex, exit_ok = ok\<rparr>"

definition failing_env :: demux_env where
  "failing_env = demo_env (\<lambda>p. True) (\<lambda>cmd. False)"

definition missing_A_env :: demux_env where
  "missing_A_env = demo_env (\<lambda>p. p \<noteq> ''/data/raw/A_1.fq'') (\<lambda>cmd. True)"

section \<open>The working directory around the post-processing stages\<close>

text \<open>
  \<^verbatim>\<open>relabel_and_cluster\<close>, \<^verbatim>\<open>plot_rarefaction_curve\<close> and \<^verbatim>\<open>filter_low_abundance_otus\<close> change
  the working directory of the process. The process state is the working directory and the
  console input that is left. The world outside decides which operations complete and
  which raise, and what the files hold; the argument vectors of the external commands play
  no part in the control flow and are named by the variable that holds them.
\<close>

record process =
  cwd :: string
  stdin :: "string list"

datatype operation =
    Chdir string
  | Run_command string
  | Remove string
  | Rename string string
  | Read_file string
  | Write_file string
  | Savefig string

record world =
  succeeds :: "operation \<Rightarrow> bool"
  parse_int :: "string \<Rightarrow> int option"
  parse_float :: "string \<Rightarrow> rat option"
  temp_otus_exists :: bool
  id_sample :: "string list option"
  rare_columns :: "string list option"
  otutab :: "otu_table option"
  otus_fasta :: "seq_record list option"

text \<open>
  How control leaves a function: by \<^verbatim>\<open>return\<close> or the end of the body, by an exception
  that propagates to the caller, or not at all.
\<close>

datatype exit_path = Returned | Raised | Never

text \<open>An operation that raises when the world says so, followed by the rest of the body.\<close>

definition attempt ::
  "world \<Rightarrow> operation \<Rightarrow> process \<Rightarrow> (process \<Rightarrow> exit_path \<times> process) \<Rightarrow> exit_path \<times> process" where
  "attempt w oper p rest = (if succeeds w oper then rest p else (Raised, p))"

definition chdir ::
  "world \<Rightarrow> string \<Rightarrow> process \<Rightarrow> (process \<Rightarrow> exit_path \<times> process) \<Rightarrow> exit_path \<times> process" where
  "chdir w dir p rest = attempt w (Chdir dir) p (\<lambda>p. rest (p\<lparr>cwd := dir\<rparr>))"

text \<open>\<^verbatim>\<open>os.chdir(orig_dir)\<close> followed by the return.\<close>

definition chdir_return :: "world \<Rightarrow> string \<Rightarrow> process \<Rightarrow> exit_path \<times> process" where
  "chdir_return w orig_dir p = chdir w orig_dir p (\<lambda>p. (Returned, p))"

text \<open>
  The prompt loops \<^verbatim>\<open>while choice not in ["1", "2"]: choice = input(...).strip()\<close>. At the
  end of the input \<^verbatim>\<open>input\<close> raises \<^verbatim>\<open>EOFError\<close>, which nothing catches: the result \<open>None\<close>.
\<close>

fun read_choice :: "string list \<Rightarrow> (string \<times> string list) option" where
  "read_choice [] = None"
| "read_choice (line # rest) =
     (if strip line = ''1'' \<or> strip line = ''2'' then Some (strip line, rest)
      else read_choice rest)"

text \<open>Lines 175 to 183: the identity threshold, a number between 0 and 1. Here
  \<^verbatim>\<open>input\<close> stands outside the \<^verbatim>\<open>try\<close>, so the end of the input raises.\<close>

fun read_identity :: "(string \<Rightarrow> rat option) \<Rightarrow> string list \<Rightarrow> (string \<times> string list) option" where
  "read_identity to_float [] = None"
| "read_identity to_float (line # rest) =
     (case to_float (strip line) of
        None \<Rightarrow> read_identity to_float rest
      | Some val \<Rightarrow>
          if 0 \<le> val \<and> val \<le> 1 then Some (strip line, rest)
          else read_identity to_float rest)"

text \<open>\<^verbatim>\<open>relabel_and_cluster\<close>, lines 144 to 241.\<close>

definition relabel_and_cluster :: "world \<Rightarrow> string \<Rightarrow> process \<Rightarrow> exit_path \<times> process" where
  "relabel_and_cluster w output_dir p0 =
     (let otu_dir = path_join output_dir ''7-OTU'';
          orig_dir = cwd p0
      in chdir w otu_dir p0 (\<lambda>p.
         attempt w (Run_command ''cmd_relabel'') p (\<lambda>p.
         case read_choice (stdin p) of
           None \<Rightarrow> (Raised, p\<lparr>stdin := []\<rparr>)
         | Some (choice, left) \<Rightarrow>
             (let p = p\<lparr>stdin := left\<rparr> in
              if choice = ''1''
              then (case read_identity (parse_float w) (stdin p) of
                      None \<Rightarrow> (Raised, p\<lparr>stdin := []\<rparr>)
                    | Some (up_identity, left) \<Rightarrow>
                        (let p = p\<lparr>stdin := left\<rparr> in
                         attempt w (Run_command ''cmd_cluster'') p (\<lambda>p.
                         attempt w (Run_command ''cmd_map'') p (\<lambda>p.
                         if temp_otus_exists w
                         then attempt w (Remove ''otus.temp.fasta'') p (chdir_return w orig_dir)
                         else chdir_return w orig_dir p))))
              else attempt w (Run_command ''cmd_map2'') p (\<lambda>p.
                   attempt w (Rename ''otus.temp.fasta'' ''otus.fasta'') p (\<lambda>p.
                   attempt w (Rename ''otutab.temp.txt'' ''otutab.txt'') p
                     (chdir_return w orig_dir)))))))"

text \<open>
  \<^verbatim>\<open>plot_rarefaction_curve\<close>, lines 246 to 313. The \<^verbatim>\<open>awk\<close> call sits in a \<^verbatim>\<open>try\<close> with a
  bare \<^verbatim>\<open>except\<close> and cannot leave the function. \<^verbatim>\<open>id_sample\<close> is the content of the sample-id
  file (\<open>None\<close>: the file does not exist), \<^verbatim>\<open>rare_columns\<close> the column names of \<^verbatim>\<open>rare.txt\<close>
  (\<open>None\<close>: \<^verbatim>\<open>read_csv\<close> raises, which is caught). Selecting \<^verbatim>\<open>['richness', sid]\<close> raises
  \<^verbatim>\<open>KeyError\<close> when there is no column \<^verbatim>\<open>richness\<close>.
\<close>

definition plot_rarefaction_curve :: "world \<Rightarrow> string \<Rightarrow> process \<Rightarrow> exit_path \<times> process" where
  "plot_rarefaction_curve w output_dir p0 =
     (let otu_dir = path_join output_dir ''7-OTU'';
          orig_dir = cwd p0
      in chdir w otu_dir p0 (\<lambda>p.
         attempt w (Run_command ''cmd_rarefy'') p (\<lambda>p.
         case id_sample w of
           None \<Rightarrow> chdir_return w orig_dir p
         | Some sample_ids \<Rightarrow>
             attempt w (Read_file ''id.sample'') p (\<lambda>p.
             case rare_columns w of
               None \<Rightarrow> chdir_return w orig_dir p
             | Some cols \<Rightarrow>
                 (let all_data = filter (\<lambda>sid. sid \<in> set cols) sample_ids
                  in if all_data \<noteq> [] \<and> ''richness'' \<notin> set cols then (Raised, p)
                     else if all_data = [] then chdir_return w orig_dir p
                     else attempt w (Savefig ''rarefaction_curve.pdf'') p
                            (chdir_return w orig_dir))))))"

text \<open>
  \<^verbatim>\<open>filter_low_abundance_otus\<close>, lines 319 to 447, built from the parts above: the prompts,
  the table filter and the partition. \<^verbatim>\<open>otutab\<close> is the table in \<^verbatim>\<open>otutab.txt\<close> and \<^verbatim>\<open>otus_fasta\<close>
  the records of \<^verbatim>\<open>otus.fasta\<close> (\<open>None\<close>: reading raises, which is caught and followed by a
  return). Removing \<^verbatim>\<open>list.t1\<close> sits in a \<^verbatim>\<open>try\<close> and cannot leave the function.
\<close>

definition filter_low_abundance_otus :: "world \<Rightarrow> string \<Rightarrow> process \<Rightarrow> exit_path \<times> process" where
  "filter_low_abundance_otus w output_dir p0 =
     (let otu_dir = path_join output_dir ''7-OTU'';
          orig_dir = cwd p0
      in chdir w otu_dir p0 (\<lambda>p.
         case read_choice (stdin p) of
           None \<Rightarrow> (Raised, p\<lparr>stdin := []\<rparr>)
         | Some (choice, left) \<Rightarrow>
             (let p = p\<lparr>stdin := left\<rparr> in
              if choice = ''2'' then chdir_return w orig_dir p
              else
                case collect_min_count (parse_int w) (stdin p) of
                  None \<Rightarrow> (Never, p\<lparr>stdin := []\<rparr>)
                | Some (filter_min_count, left) \<Rightarrow>
                (case collect_min_freq (parse_float w) left of
                  None \<Rightarrow> (Never, p\<lparr>stdin := []\<rparr>)
                | Some (filter_min_freq, left) \<Rightarrow>
                (let p = p\<lparr>stdin := left\<rparr> in
                 case otutab w of
                   None \<Rightarrow> chdir_return w orig_dir p
                 | Some otu_df \<Rightarrow>
                 (case filter_table filter_min_count filter_min_freq otu_df of
                    Inl e \<Rightarrow> (Raised, p)
                  | Inr otu_df_filtered \<Rightarrow>
                      attempt w (Write_file ''otutab.filter.txt'') p (\<lambda>p.
                      attempt w (Read_file ''otutab.filter.txt'') p (\<lambda>p.
                      attempt w (Write_file ''list.t1'') p (\<lambda>p.
                      case otus_fasta w of
                        None \<Rightarrow> chdir_return w orig_dir p
                      | Some records \<Rightarrow>
                          attempt w (Write_file ''otus.filter.fasta'') p (\<lambda>p.
                          attempt w (Write_file ''list.filter'') p
                            (chdir_return w orig_dir)))))))))))"

text \<open>A world in which every operation completes except those listed, and a process
  started in the user's directory.\<close>

definition demo_world :: "operation list \<Rightarrow> world" where
  "demo_world failing =
     \<lparr>succeeds = (\<lambda>oper. oper \<notin> set failing), parse_int = dec_int, parse_float = dec_float,
      temp_otus_exists = True, id_sample = Some [''A'', ''B''],
      rare_columns = Some [''richness'', ''A'', ''B''],
      otutab = Some S1_table, otus_fasta = Some low_records\<rparr>"

definition demo_process :: "string list \<Rightarrow> process" where
  "demo_process lines = \<lparr>cwd = ''/home/user'', stdin = lines\<rparr>"

section \<open>The filter computes the cell rule of the specification\<close>

lemma int64_id: "0 \<le> n \<Longrightarrow> n < 2 ^ 63 \<Longrightarrow> int64 n = n"
  by (simp add: int64_def)

lemma apply_series_map:
  "(\<And>x. x \<in> set xs \<Longrightarrow> f x = Inr (g x)) \<Longrightarrow> apply_series f xs = Inr (map g xs)"
  by (induction xs) simp_all

lemma wf_column_sum: "wf_column col \<Longrightarrow> series_sum col = sum_list col"
  unfolding wf_column_def series_sum_def
  by (intro int64_id) (auto intro: sum_list_nonneg)

lemma member_le_sum_list_int: "(\<forall>y \<in> set col. (0::int) \<le> y) \<Longrightarrow> x \<in> set col \<Longrightarrow> x \<le> sum_list col"
  by (induction col) (auto simp: sum_list_nonneg add_increasing add_increasing2)

lemma filter_cell_spec:
  assumes "wf_column col" "0 < mc" "x \<in> set col"
  shows "filter_cell mc mf (series_sum col) x = Inr (spec_cell mc mf (sum_list col) x)"
proof -
  have le: "x \<le> sum_list col"
    using assms member_le_sum_list_int[of col x] by (simp add: wf_column_def)
  show ?thesis
    using assms le
    by (auto simp: filter_cell_def spec_cell_def truediv_def wf_column_sum)
qed

lemma apply_series_filter_cell:
  assumes "wf_column col" "0 < mc"
  shows "apply_series (filter_cell mc mf (series_sum col)) col = Inr (spec_column mc mf col)"
  unfolding spec_column_def
  by (rule apply_series_map) (rule filter_cell_spec[OF assms])

lemma fst_put [simp]: "fst (put s col p) = fst p"
  by (simp add: put_def)

lemma assign_map:
  "s \<in> fst ` set cs \<Longrightarrow> distinct (map fst cs) \<Longrightarrow> assign cs s col = map (put s col) cs"
proof (induction cs)
  case Nil
  then show ?case by simp
next
  case (Cons a cs)
  obtain s0 c0 where a: "a = (s0, c0)" by (cases a)
  show ?case
  proof (cases "s0 = s")
    case True
    with Cons.prems a have "\<forall>p \<in> set cs. fst p \<noteq> s" by force
    then have "map (put s col) cs = cs"
      by (intro map_idI) (simp add: put_def)
    moreover have "put s col a = (s, col)" using True a by (simp add: put_def)
    ultimately show ?thesis using True a by simp
  next
    case False
    with Cons a show ?thesis by (auto simp: put_def)
  qed
qed

lemma filter_sample_spec:
  assumes "wf_table df" "0 < mc" "map_of (columns df) s = Some col"
  shows "filter_sample mc mf df s acc = Inr (set_column acc s (spec_column mc mf col))"
proof -
  have "(s, col) \<in> set (columns df)" using assms(3) by (rule map_of_SomeD)
  with assms(1) have "wf_column col" by (auto simp: wf_table_def)
  then show ?thesis
    using assms(2,3) by (simp add: filter_sample_def get_column_def apply_series_filter_cell)
qed

lemma fst_upd [simp]: "fst (upd F S p) = fst p"
  by (simp add: upd_def)

lemma upd_empty [simp]: "upd F {} p = p"
  by (simp add: upd_def)

lemma filter_loop_spec:
  assumes "wf_table df" "0 < mc"
  shows "set names \<subseteq> fst ` set (columns df) \<Longrightarrow> map fst (columns acc) = map fst (columns df) \<Longrightarrow>
    filter_loop mc mf df names acc =
      Inr (acc\<lparr>columns := map (upd (\<lambda>s. spec_column mc mf (the (map_of (columns df) s))) (set names)) (columns acc)\<rparr>)"
proof (induction names arbitrary: acc)
  case Nil
  then show ?case by simp
next
  case (Cons s rest)
  let ?F = "\<lambda>s. spec_column mc mf (the (map_of (columns df) s))"
  from Cons.prems(1) have "s \<in> fst ` set (columns df)" by simp
  then obtain col where col: "map_of (columns df) s = Some col"
    by (metis domD dom_map_of_conv_image_fst)
  let ?acc' = "set_column acc s (spec_column mc mf col)"
  have d: "distinct (map fst (columns acc))"
    using assms(1) Cons.prems(2) by (simp add: wf_table_def)
  have m: "s \<in> fst ` set (columns acc)"
    using Cons.prems by (metis list.set_intros(1) subsetD set_map)
  have acc': "columns ?acc' = map (put s (?F s)) (columns acc)"
    using assign_map[OF m d] col by (simp add: set_column_def)
  have names': "map fst (columns ?acc') = map fst (columns df)"
    unfolding acc' using Cons.prems(2) by (simp add: comp_def)
  have step: "filter_sample mc mf df s acc = Inr ?acc'"
    by (rule filter_sample_spec[OF assms col])
  have "filter_loop mc mf df (s # rest) acc = filter_loop mc mf df rest ?acc'"
    by (simp add: step)
  also have "\<dots> = Inr (?acc'\<lparr>columns := map (upd ?F (set rest)) (columns ?acc')\<rparr>)"
    using Cons.prems(1) by (intro Cons.IH names') simp
  also have "map (upd ?F (set rest)) (columns ?acc') = map (upd ?F (set (s # rest))) (columns acc)"
    unfolding acc' by (simp add: comp_def upd_def put_def)
  finally show ?case by (simp add: set_column_def)
qed

lemma filter_table_spec:
  assumes "wf_table df" "0 < mc"
  shows "filter_table mc mf df = Inr (spec_table mc mf df)"
proof -
  let ?F = "\<lambda>s. spec_column mc mf (the (map_of (columns df) s))"
  have d: "distinct (map fst (columns df))" using assms(1) by (simp add: wf_table_def)
  have "map (upd ?F (set (map fst (columns df)))) (columns df)
          = map (\<lambda>(s, col). (s, spec_column mc mf col)) (columns df)"
  proof (rule map_cong[OF refl])
    fix p assume p: "p \<in> set (columns df)"
    obtain s col where sc: "p = (s, col)" by (cases p)
    with p d have "map_of (columns df) s = Some col" by simp
    with p sc show "upd ?F (set (map fst (columns df))) p = (case p of (s, col) \<Rightarrow> (s, spec_column mc mf col))"
      by (force simp: upd_def)
  qed
  then show ?thesis
    unfolding filter_table_def spec_table_def
    using filter_loop_spec[OF assms, of "map fst (columns df)" df mf] by simp
qed

section \<open>Claims about the table filter\<close>

lemmas eval_defs = filter_table_def filter_sample_def get_column_def series_sum_def int64_def
  filter_cell_def truediv_def set_column_def wf_table_def wf_column_def



lemma spec_cell_zero_freq:
  assumes "wf_column col" "0 < mc" "x \<in> set col"
  shows "spec_cell mc 0 (sum_list col) x = (if x \<ge> mc then x else 0)"
proof -
  have "0 \<le> x" using assms by (simp add: wf_column_def)
  moreover have "0 \<le> sum_list col" using assms by (auto simp: wf_column_def intro: sum_list_nonneg)
  ultimately have "(0::rat) \<le> of_int x / of_int (sum_list col)" by simp
  then show ?thesis by (simp add: spec_cell_def)
qed

text \<open>
  Claim C6. With \<open>min_freq = 0\<close> the frequency test always holds, so a cell is kept exactly
  when it reaches \<open>min_count\<close>. For the column \<open>[9, 10, 1000]\<close> with \<open>min_count = 10\<close> the
  filtered column is \<open>[0, 10, 1000]\<close>.
\<close>

theorem min_freq_zero_count_only:
  "(wf_table df \<and> 0 < min_count \<longrightarrow>
      filter_table min_count 0 df =
        Inr (df\<lparr>columns :=
               map (\<lambda>(sample, col). (sample, map (\<lambda>x. if x \<ge> min_count then x else 0) col))
                   (columns df)\<rparr>))
   \<and> filter_table 10 0 S6_table = Inr (S6_table\<lparr>columns := [(''S1'', [0, 10, 1000])]\<rparr>)"
proof (intro conjI impI)
  assume a: "wf_table df \<and> 0 < min_count"
  have "map (\<lambda>(s, col). (s, spec_column min_count 0 col)) (columns df)
        = map (\<lambda>(sample, col). (sample, map (\<lambda>x. if x \<ge> min_count then x else 0) col)) (columns df)"
  proof (rule map_cong[OF refl])
    fix p assume p: "p \<in> set (columns df)"
    obtain s col where sc: "p = (s, col)" by (cases p)
    with p a have "wf_column col" by (auto simp: wf_table_def)
    then have "spec_column min_count 0 col = map (\<lambda>x. if x \<ge> min_count then x else 0) col"
      unfolding spec_column_def using a by (intro map_cong[OF refl] spec_cell_zero_freq) auto
    with sc show "(case p of (s, col) \<Rightarrow> (s, spec_column min_count 0 col))
       = (case p of (sample, col) \<Rightarrow> (sample, map (\<lambda>x. if x \<ge> min_count then x else 0) col))"
      by simp
  qed
  with a show "filter_table min_count 0 df =
        Inr (df\<lparr>columns :=
               map (\<lambda>(sample, col). (sample, map (\<lambda>x. if x \<ge> min_count then x else 0) col))
                   (columns df)\<rparr>)"
    by (simp add: filter_table_spec spec_table_def)
next
  show "filter_table 10 0 S6_table = Inr (S6_table\<lparr>columns := [(''S1'', [0, 10, 1000])]\<rparr>)"
    by (simp add: S6_table_def eval_defs)
qed

theorem min_freq_zero_count_only_witness:
  "wf_table S6_table \<and> (0::int) < 10 \<and>
   filter_table 10 0 S6_table = Inr (S6_table\<lparr>columns := [(''S1'', [0, 10, 1000])]\<rparr>)"
  using min_freq_zero_count_only [of S6_table 10]
  by (simp add: S6_table_def wf_table_def wf_column_def)

lemma spec_cell_bounds: "0 \<le> x \<Longrightarrow> 0 \<le> spec_cell mc mf T x \<and> spec_cell mc mf T x \<le> x"
  by (simp add: spec_cell_def)

lemma wf_spec_column:
  assumes "wf_column col"
  shows "wf_column (spec_column mc mf col)" and "sum_list (spec_column mc mf col) \<le> sum_list col"
proof -
  have nn: "\<forall>x \<in> set col. 0 \<le> x" using assms by (simp add: wf_column_def)
  show le: "sum_list (spec_column mc mf col) \<le> sum_list col"
  proof -
    have "\<And>x. x \<in> set col \<Longrightarrow> spec_cell mc mf (sum_list col) x \<le> x"
      using nn by (simp add: spec_cell_def)
    then have "sum_list (map (spec_cell mc mf (sum_list col)) col) \<le> sum_list (map (\<lambda>x. x) col)"
      by (rule sum_list_mono)
    then show ?thesis by (simp add: spec_column_def)
  qed
  show "wf_column (spec_column mc mf col)"
    using assms le nn by (auto simp: wf_column_def spec_column_def spec_cell_def)
qed

lemma length_spec_column [simp]: "length (spec_column mc mf col) = length col"
  by (simp add: spec_column_def)

lemma wf_spec_table: "wf_table df \<Longrightarrow> wf_table (spec_table mc mf df)"
  unfolding wf_table_def spec_table_def
  by (auto simp: comp_def case_prod_beta wf_spec_column(1))

lemma spec_column_idem:
  assumes "wf_column col" "0 < mc"
  shows "spec_column mc mf (spec_column mc mf col) = spec_column mc mf col"
proof -
  let ?T = "sum_list col"
  let ?col' = "spec_column mc mf col"
  let ?T' = "sum_list ?col'"
  have wf': "wf_column ?col'" and le: "?T' \<le> ?T" using wf_spec_column[OF assms(1)] by auto
  have "map (spec_cell mc mf ?T') ?col' = ?col'"
  proof (rule map_idI)
    fix y assume y: "y \<in> set ?col'"
    then obtain x where x: "x \<in> set col" "y = spec_cell mc mf ?T x"
      by (auto simp: spec_column_def)
    show "spec_cell mc mf ?T' y = y"
    proof (cases "y = 0")
      case True
      then show ?thesis by (simp add: spec_cell_def)
    next
      case False
      with x have keep: "y = x" "mc \<le> x" "mf \<le> of_int x / of_int ?T"
        by (auto simp: spec_cell_def split: if_splits)
      have ypos: "0 < y" using keep assms(2) by simp
      have "y \<le> ?T'"
        using wf' y member_le_sum_list_int[of ?col' y] by (simp add: wf_column_def)
      with ypos have T'pos: "0 < ?T'" by simp
      with le have Tpos: "0 < ?T" by simp
      have "(of_int y :: rat) / of_int ?T \<le> of_int y / of_int ?T'"
        using le T'pos Tpos ypos by (intro divide_left_mono) auto
      with keep have "mf \<le> of_int y / of_int ?T'" by simp
      with keep show ?thesis by (simp add: spec_cell_def)
    qed
  qed
  then show ?thesis by (simp add: spec_column_def[of mc mf ?col'])
qed

lemma spec_table_idem:
  assumes "wf_table df" "0 < mc"
  shows "spec_table mc mf (spec_table mc mf df) = spec_table mc mf df"
proof -
  have "map (\<lambda>(s, col). (s, spec_column mc mf (spec_column mc mf col))) (columns df)
        = map (\<lambda>(s, col). (s, spec_column mc mf col)) (columns df)"
  proof (rule map_cong[OF refl])
    fix p assume p: "p \<in> set (columns df)"
    obtain s col where sc: "p = (s, col)" by (cases p)
    with p assms have "wf_column col" by (auto simp: wf_table_def)
    with sc assms(2) show "(case p of (s, col) \<Rightarrow> (s, spec_column mc mf (spec_column mc mf col)))
        = (case p of (s, col) \<Rightarrow> (s, spec_column mc mf col))"
      by (simp add: spec_column_idem)
  qed
  then show ?thesis by (simp add: spec_table_def comp_def case_prod_beta)
qed

text \<open>
  Claim C5. Filtering is idempotent: for a table of the data model and a positive
  \<open>min_count\<close>, the filter succeeds, and filtering its result again with the same thresholds
  returns that result unchanged.
\<close>

theorem filter_table_idempotent:
  assumes "wf_table df" and "0 < min_count"
  shows "\<exists>filtered. filter_table min_count min_freq df = Inr filtered
           \<and> filter_table min_count min_freq filtered = Inr filtered"
proof -
  have 1: "filter_table min_count min_freq df = Inr (spec_table min_count min_freq df)"
    by (rule filter_table_spec[OF assms])
  have "filter_table min_count min_freq (spec_table min_count min_freq df)
          = Inr (spec_table min_count min_freq (spec_table min_count min_freq df))"
    by (rule filter_table_spec[OF wf_spec_table[OF assms(1)] assms(2)])
  with 1 show ?thesis by (simp add: spec_table_idem[OF assms])
qed

theorem filter_table_idempotent_witness:
  "wf_table S1_table \<and> (0::int) < 50 \<and>
   (\<exists>filtered. filter_table 50 (1 / 10) S1_table = Inr filtered
           \<and> filter_table 50 (1 / 10) filtered = Inr filtered)"
proof -
  have h: "wf_table S1_table" by (simp add: S1_table_def wf_table_def wf_column_def)
  show ?thesis using h filter_table_idempotent [OF h, of 50 "1 / 10"] by simp
qed









text \<open>
  Claim C4. A sample column whose cells are all zero has total \<open>0\<close>. With a positive
  \<open>min_count\<close> the count test fails on each of its cells, so the quotient is not formed
  (no \<open>DivisionByZero\<close> outcome), the filter succeeds and returns that column as zeros.
\<close>

theorem zero_total_column:
  assumes "wf_table df" and "0 < min_count"
    and "(sample, col) \<in> set (columns df)" and "\<forall>x \<in> set col. x = 0"
  shows "series_sum col = 0
       \<and> (\<forall>x \<in> set col. filter_cell min_count min_freq (series_sum col) x = Inr 0)
       \<and> (\<exists>filtered. filter_table min_count min_freq df = Inr filtered
             \<and> map_of (columns filtered) sample = Some (replicate (length col) 0))"
proof (intro conjI)
  have z: "sum_list col = 0" using assms(4) by (induction col) auto
  then show s: "series_sum col = 0" by (simp add: series_sum_def int64_def)
  show "\<forall>x \<in> set col. filter_cell min_count min_freq (series_sum col) x = Inr 0"
    using assms(2,4) by (auto simp: filter_cell_def)
  have "spec_column min_count min_freq col = replicate (length col) 0"
    using assms(2,4) by (auto simp: spec_column_def spec_cell_def map_replicate_const[symmetric] intro!: map_cong)
  moreover have "map_of (columns (spec_table min_count min_freq df)) sample
                   = Some (spec_column min_count min_freq col)"
  proof -
    have "distinct (map fst (columns (spec_table min_count min_freq df)))"
      using wf_spec_table[OF assms(1)] by (simp add: wf_table_def)
    moreover have "(sample, spec_column min_count min_freq col)
                     \<in> set (columns (spec_table min_count min_freq df))"
      using assms(3) by (force simp: spec_table_def)
    ultimately show ?thesis by (rule map_of_is_SomeI)
  qed
  ultimately show "\<exists>filtered. filter_table min_count min_freq df = Inr filtered
             \<and> map_of (columns filtered) sample = Some (replicate (length col) 0)"
    by (simp add: filter_table_spec[OF assms(1,2)])
qed

theorem zero_total_column_witness:
  "wf_table zero_sample \<and> (0::int) < 50 \<and> (''S2'', [0, 0]) \<in> set (columns zero_sample)
   \<and> series_sum [0, 0] = 0
   \<and> filter_cell 50 (1 / 10) (series_sum [0, 0]) 0 = Inr 0
   \<and> (\<exists>filtered. filter_table 50 (1 / 10) zero_sample = Inr filtered
             \<and> map_of (columns filtered) ''S2'' = Some [0, 0])"
proof -
  have h: "wf_table zero_sample" by (simp add: zero_sample_def wf_table_def wf_column_def)
  have m: "(''S2'', [0, 0]) \<in> set (columns zero_sample)" by (simp add: zero_sample_def)
  have z: "\<forall>x \<in> set [0, 0::int]. x = 0" by simp
  show ?thesis
    using h m z zero_total_column [OF h _ m z, of 50 "1 / 10"] by (simp add: filter_cell_def)
qed

section \<open>Claims about the partition of the sequences\<close>

lemma str_in_sublist: "str_in sub s \<longleftrightarrow> sublist sub s"
  by (induction s) (simp_all add: sublist_Cons_right)

lemma str_in_iff: "str_in sub s \<longleftrightarrow> (\<exists>pre post. s = pre @ sub @ post)"
  by (simp add: str_in_sublist sublist_def)




lemma index_set_column [simp]: "index (set_column df s col) = index df"
  by (simp add: set_column_def)











text \<open>
  Claim C10 says that an id \<open>A\<close> that is a proper prefix of another id \<open>B\<close> never matches a
  record \<open>B;suffix\<close> whose suffix does not contain \<open>A;\<close>. This fails when \<open>A\<close> is also the end
  of \<open>B\<close>: the id \<open>1\<close> matches the record \<open>11;size=3\<close>.
\<close>

theorem prefix_id_matches_counterexample:
  "strict_prefix ''1'' ''11'' \<and> \<not> str_in (''1'' @ '';'') ''size=3''
   \<and> str_in (''1'' @ '';'') (''11'' @ '';'' @ ''size=3'')"
  by (simp add: strict_prefix_def)

text \<open>
  Claim C10, amended. Let \<open>A\<close> be a proper prefix of \<open>B\<close>, let \<open>B\<close> contain no \<open>;\<close> and let \<open>A\<close>
  not be a suffix of \<open>B\<close>. Then the test for \<open>A\<close> does not match a record \<open>B;suffix\<close> whose
  suffix contains no \<open>A;\<close>. In general a record is matched exactly when its identifier
  contains the OTU id immediately followed by \<open>;\<close>.
\<close>

theorem delimiter_excludes_longer_id:
  assumes "strict_prefix A B" and "CHR '';'' \<notin> set B" and "\<not> suffix A B"
    and "\<not> str_in (A @ '';'') suf"
  shows "\<not> str_in (A @ '';'') (B @ '';'' @ suf)
       \<and> (\<forall>otu rid. str_in (otu @ '';'') rid \<longleftrightarrow> (\<exists>pre post. rid = pre @ otu @ '';'' @ post))"
proof (intro conjI allI)
  have nA: "CHR '';'' \<notin> set A"
    using assms(1,2) by (auto simp: strict_prefix_def prefix_def)
  show "\<not> str_in (A @ '';'') (B @ '';'' @ suf)"
  proof
    assume "str_in (A @ '';'') (B @ '';'' @ suf)"
    then have "sublist (A @ '';'') (B @ ('';'' @ suf))" by (simp add: str_in_sublist)
    then consider (left) "sublist (A @ '';'') B"
      | (right) "sublist (A @ '';'') ('';'' @ suf)"
      | (split) xs1 xs2 where "A @ '';'' = xs1 @ xs2" "suffix xs1 B" "prefix xs2 ('';'' @ suf)"
      unfolding sublist_append by blast
    then show False
    proof cases
      case left
      then have "set (A @ '';'') \<subseteq> set B" by (rule set_mono_sublist)
      with assms(2) show False by simp
    next
      case right
      then have "prefix (A @ '';'') (CHR '';'' # suf) \<or> sublist (A @ '';'') suf"
        by (simp add: sublist_Cons_right)
      then show False
      proof
        assume p: "prefix (A @ '';'') (CHR '';'' # suf)"
        show False
        proof (cases A)
          case Nil
          with assms(3) show False by simp
        next
          case (Cons a A')
          with p have "a = CHR '';''" by simp
          with Cons nA show False by simp
        qed
      next
        assume "sublist (A @ '';'') suf"
        with assms(4) show False by (simp add: str_in_sublist)
      qed
    next
      case split
      show False
      proof (cases xs2)
        case Nil
        with split have "suffix (A @ '';'') B" by simp
        then have "set (A @ '';'') \<subseteq> set B" by (rule set_mono_suffix)
        with assms(2) show False by simp
      next
        case (Cons c xs2')
        with split(3) have c: "c = CHR '';''" by simp
        show False
        proof (cases "xs2' = []")
          case True
          with split(1) Cons c have "xs1 = A" by simp
          with split(2) assms(3) show False by simp
        next
          case False
          then obtain ys d where "xs2' = ys @ [d]" by (metis rev_exhaust)
          with split(1) Cons c have "A @ '';'' = (xs1 @ CHR '';'' # ys) @ [d]" by simp
          then have "A = xs1 @ CHR '';'' # ys" by (metis append1_eq_conv)
          with nA show False by simp
        qed
      qed
    qed
  qed
next
  fix otu rid
  show "str_in (otu @ '';'') rid \<longleftrightarrow> (\<exists>pre post. rid = pre @ otu @ '';'' @ post)"
    by (simp add: str_in_iff)
qed

theorem delimiter_excludes_longer_id_witness:
  "strict_prefix ''OTU_1'' ''OTU_10'' \<and> CHR '';'' \<notin> set ''OTU_10'' \<and> \<not> suffix ''OTU_1'' ''OTU_10''
   \<and> \<not> str_in (''OTU_1'' @ '';'') ''size=7''
   \<and> \<not> str_in (''OTU_1'' @ '';'') (''OTU_10'' @ '';'' @ ''size=7'')"
proof -
  have a: "strict_prefix ''OTU_1'' ''OTU_10''" by (simp add: strict_prefix_def)
  have b: "CHR '';'' \<notin> set ''OTU_10''" by simp
  have c: "\<not> suffix ''OTU_1'' ''OTU_10''" by (simp add: suffix_to_prefix)
  have d: "\<not> str_in (''OTU_1'' @ '';'') ''size=7''" by simp
  show ?thesis using a b c d delimiter_excludes_longer_id [OF a b c d] by simp
qed

section \<open>Claims about the threshold prompts\<close>

lemma collect_min_count_iff:
  "collect_min_count py_int inputs = Some (n, rest) \<longleftrightarrow>
     (\<exists>rejected line. inputs = rejected @ line # rest
        \<and> (\<forall>l \<in> set rejected. \<forall>m. py_int (strip l) = Some m \<longrightarrow> \<not> 0 < m)
        \<and> py_int (strip line) = Some n \<and> 0 < n)"
proof (induction inputs)
  case Nil
  then show ?case by simp
next
  case (Cons l ls)
  show ?case
  proof (cases "\<exists>m. py_int (strip l) = Some m \<and> 0 < m")
    case True
    then obtain m where m: "py_int (strip l) = Some m" "0 < m" by blast
    have "(\<exists>rejected line. l # ls = rejected @ line # rest
        \<and> (\<forall>l \<in> set rejected. \<forall>m. py_int (strip l) = Some m \<longrightarrow> \<not> 0 < m)
        \<and> py_int (strip line) = Some n \<and> 0 < n) \<longleftrightarrow> (m = n \<and> ls = rest)"
    proof
      assume "\<exists>rejected line. l # ls = rejected @ line # rest
        \<and> (\<forall>l \<in> set rejected. \<forall>m. py_int (strip l) = Some m \<longrightarrow> \<not> 0 < m)
        \<and> py_int (strip line) = Some n \<and> 0 < n"
      then obtain rejected line where r: "l # ls = rejected @ line # rest"
        "\<forall>l \<in> set rejected. \<forall>m. py_int (strip l) = Some m \<longrightarrow> \<not> 0 < m"
        "py_int (strip line) = Some n" by blast
      show "m = n \<and> ls = rest"
      proof (cases rejected)
        case Nil
        with r m show ?thesis by simp
      next
        case (Cons a as)
        with r m show ?thesis by auto
      qed
    next
      assume "m = n \<and> ls = rest"
      with m show "\<exists>rejected line. l # ls = rejected @ line # rest
        \<and> (\<forall>l \<in> set rejected. \<forall>m. py_int (strip l) = Some m \<longrightarrow> \<not> 0 < m)
        \<and> py_int (strip line) = Some n \<and> 0 < n"
        by (intro exI[of _ "[]"] exI[of _ l]) simp
    qed
    with m show ?thesis by auto
  next
    case False
    then have step: "collect_min_count py_int (l # ls) = collect_min_count py_int ls"
      by (auto split: option.splits)
    have "(\<exists>rejected line. l # ls = rejected @ line # rest
        \<and> (\<forall>l \<in> set rejected. \<forall>m. py_int (strip l) = Some m \<longrightarrow> \<not> 0 < m)
        \<and> py_int (strip line) = Some n \<and> 0 < n) \<longleftrightarrow>
        (\<exists>rejected line. ls = rejected @ line # rest
        \<and> (\<forall>l \<in> set rejected. \<forall>m. py_int (strip l) = Some m \<longrightarrow> \<not> 0 < m)
        \<and> py_int (strip line) = Some n \<and> 0 < n)" (is "?L \<longleftrightarrow> ?R")
    proof
      assume ?L
      then obtain rejected line where r: "l # ls = rejected @ line # rest"
        "\<forall>l \<in> set rejected. \<forall>m. py_int (strip l) = Some m \<longrightarrow> \<not> 0 < m"
        "py_int (strip line) = Some n" "0 < n" by blast
      show ?R
      proof (cases rejected)
        case Nil
        with r False show ?thesis by auto
      next
        case (Cons a as)
        with r show ?thesis by (intro exI[of _ as] exI[of _ line]) auto
      qed
    next
      assume ?R
      then obtain rejected line where r: "ls = rejected @ line # rest"
        "\<forall>l \<in> set rejected. \<forall>m. py_int (strip l) = Some m \<longrightarrow> \<not> 0 < m"
        "py_int (strip line) = Some n" "0 < n" by blast
      with False show ?L by (intro exI[of _ "l # rejected"] exI[of _ line]) auto
    qed
    with step Cons.IH show ?thesis by simp
  qed
qed

lemma collect_min_freq_iff:
  "collect_min_freq py_float inputs = Some (v, rest) \<longleftrightarrow>
     (\<exists>rejected line. inputs = rejected @ line # rest
        \<and> (\<forall>l \<in> set rejected. py_float (strip l) = None)
        \<and> py_float (strip line) = Some v)"
proof (induction inputs)
  case Nil
  then show ?case by simp
next
  case (Cons l ls)
  show ?case
  proof (cases "py_float (strip l)")
    case (Some w)
    have "(\<exists>rejected line. l # ls = rejected @ line # rest
        \<and> (\<forall>l \<in> set rejected. py_float (strip l) = None)
        \<and> py_float (strip line) = Some v) \<longleftrightarrow> (w = v \<and> ls = rest)"
    proof
      assume "\<exists>rejected line. l # ls = rejected @ line # rest
        \<and> (\<forall>l \<in> set rejected. py_float (strip l) = None)
        \<and> py_float (strip line) = Some v"
      then obtain rejected line where r: "l # ls = rejected @ line # rest"
        "\<forall>l \<in> set rejected. py_float (strip l) = None"
        "py_float (strip line) = Some v" by blast
      show "w = v \<and> ls = rest"
      proof (cases rejected)
        case Nil
        with r Some show ?thesis by simp
      next
        case (Cons a as)
        with r Some show ?thesis by auto
      qed
    next
      assume "w = v \<and> ls = rest"
      with Some show "\<exists>rejected line. l # ls = rejected @ line # rest
        \<and> (\<forall>l \<in> set rejected. py_float (strip l) = None)
        \<and> py_float (strip line) = Some v"
        by (intro exI[of _ "[]"] exI[of _ l]) simp
    qed
    with Some show ?thesis by auto
  next
    case None
    then have step: "collect_min_freq py_float (l # ls) = collect_min_freq py_float ls"
      by simp
    have "(\<exists>rejected line. l # ls = rejected @ line # rest
        \<and> (\<forall>l \<in> set rejected. py_float (strip l) = None)
        \<and> py_float (strip line) = Some v) \<longleftrightarrow>
        (\<exists>rejected line. ls = rejected @ line # rest
        \<and> (\<forall>l \<in> set rejected. py_float (strip l) = None)
        \<and> py_float (strip line) = Some v)" (is "?L \<longleftrightarrow> ?R")
    proof
      assume ?L
      then obtain rejected line where r: "l # ls = rejected @ line # rest"
        "\<forall>l \<in> set rejected. py_float (strip l) = None"
        "py_float (strip line) = Some v" by blast
      show ?R
      proof (cases rejected)
        case Nil
        with r None show ?thesis by auto
      next
        case (Cons a as)
        with r show ?thesis by (intro exI[of _ as] exI[of _ line]) auto
      qed
    next
      assume ?R
      then obtain rejected line where r: "ls = rejected @ line # rest"
        "\<forall>l \<in> set rejected. py_float (strip l) = None"
        "py_float (strip line) = Some v" by blast
      with None show ?L by (intro exI[of _ "l # rejected"] exI[of _ line]) auto
    qed
    with step Cons.IH show ?thesis by simp
  qed
qed

lemmas parse_defs = dec_int_def dec_float_def unsigned_int_def unsigned_float_def strip_def
  is_space_def Let_def

text \<open>
  Claim C9 says that a value for \<open>min_freq\<close> is accepted only if it lies in \<open>[0, 1)\<close>. The
  loop of lines 358 to 364 accepts whatever \<^verbatim>\<open>float\<close> parses: the inputs \<open>5\<close> and \<open>-0.5\<close> are
  accepted at the first prompt.
\<close>

theorem min_freq_unchecked_counterexample:
  "collect_min_freq dec_float [''5''] = Some (5, [])
   \<and> \<not> ((0::rat) \<le> 5 \<and> (5::rat) < 1)
   \<and> collect_min_freq dec_float [''-0.5''] = Some (- (1 / 2), [])
   \<and> \<not> ((0::rat) \<le> - (1 / 2) \<and> - (1 / 2) < (1::rat))"
  by (simp add: parse_defs)

text \<open>
  Claim C9, amended. The prompt for \<open>min_count\<close> returns \<open>n\<close> exactly when some input line
  parses as the integer \<open>n > 0\<close> and every line before it was rejected, that is, did not parse
  as a positive integer. The prompt for \<open>min_freq\<close> returns \<open>v\<close> exactly when some input line
  parses as the number \<open>v\<close> and no line before it parses as a number; the value is not
  range-checked. Rejected lines are followed by the next prompt.
\<close>

theorem thresholds_accepted:
  "(collect_min_count py_int inputs = Some (min_count, rest) \<longleftrightarrow>
      (\<exists>rejected line. inputs = rejected @ line # rest
         \<and> (\<forall>l \<in> set rejected. \<forall>m. py_int (strip l) = Some m \<longrightarrow> \<not> 0 < m)
         \<and> py_int (strip line) = Some min_count \<and> 0 < min_count))
   \<and> (collect_min_freq py_float inputs' = Some (min_freq, rest') \<longleftrightarrow>
      (\<exists>rejected line. inputs' = rejected @ line # rest'
         \<and> (\<forall>l \<in> set rejected. py_float (strip l) = None)
         \<and> py_float (strip line) = Some min_freq))"
  by (simp only: collect_min_count_iff collect_min_freq_iff)

theorem thresholds_accepted_witness:
  "collect_min_count dec_int [''abc'', ''0'', '' 50 '', ''x''] = Some (50, [''x''])
   \<and> collect_min_freq dec_float [''one'', ''0.001''] = Some (1 / 1000, [])"
proof -
  note t = thresholds_accepted [of dec_int "[''abc'', ''0'', '' 50 '', ''x'']" 50 "[''x'']"
      dec_float "[''one'', ''0.001'']" "1 / 1000" "[]"]
  have a: "\<exists>rejected line. [''abc'', ''0'', '' 50 '', ''x''] = rejected @ line # [''x'']
         \<and> (\<forall>l \<in> set rejected. \<forall>m. dec_int (strip l) = Some m \<longrightarrow> \<not> 0 < m)
         \<and> dec_int (strip line) = Some 50 \<and> (0::int) < 50"
    by (rule exI[of _ "[''abc'', ''0'']"], rule exI[of _ "'' 50 ''"]) (simp add: parse_defs)
  have b: "\<exists>rejected line. [''one'', ''0.001''] = rejected @ line # []
         \<and> (\<forall>l \<in> set rejected. dec_float (strip l) = None)
         \<and> dec_float (strip line) = Some (1 / 1000)"
    by (rule exI[of _ "[''one'']"], rule exI[of _ "''0.001''"]) (simp add: parse_defs)
  from t a b show ?thesis by blast
qed

section \<open>Claims about the demultiplex stage\<close>

declare str_nat.simps [simp del]

lemmas demux_defs = demo_env_def sample_A_def sample_B_def cutadapt_cmd_def path_join_def
  str_int_def files_present_def

lemma str_nat_4: "str_nat 4 = ''4''"
  by (simp add: str_nat.simps[of 4])

text \<open>
  Claim C8 says that every sample whose two raw files exist gets exactly one command. When
  the command of an earlier sample exits with a non-zero status, \<^verbatim>\<open>run_command\<close> raises and the
  loop ends: sample \<open>B\<close> has both files, and no command is invoked for it.
\<close>

theorem failing_command_stops_stage_counterexample:
  "files_present failing_env sample_B
   \<and> demultiplex failing_env [sample_A, sample_B]
       = (Aborted, [Command (cutadapt_cmd failing_env sample_A)])"
  by (simp add: files_present_def failing_env_def demo_env_def)

text \<open>
  Claim C8, amended. If every command that the stage invokes exits with status zero, the
  stage completes and does, sample by sample in the order of the metadata table, exactly one
  thing: for a sample whose forward and reverse raw files both exist, one command, whose
  arguments after \<open>-g\<close> and \<open>-G\<close> are \<open>^\<close> followed by the forward and the reverse primer of
  that sample; for a sample with a missing file, one warning and no command, after which
  the remaining samples are processed.
\<close>

theorem demultiplex_per_sample:
  assumes "\<forall>row \<in> set rows. files_present env row \<longrightarrow> exit_ok env (cutadapt_cmd env row)"
  shows "demultiplex env rows =
           (Completed,
            map (\<lambda>row. if files_present env row then Command (cutadapt_cmd env row)
                        else Warning (sample_id row)) rows)
       \<and> (\<forall>row. cutadapt_cmd env row ! 2 = ''^'' @ forward_primer row
               \<and> cutadapt_cmd env row ! 4 = ''^'' @ reverse_primer row)"
proof
  show "demultiplex env rows =
           (Completed,
            map (\<lambda>row. if files_present env row then Command (cutadapt_cmd env row)
                        else Warning (sample_id row)) rows)"
    using assms
  proof (induction rows)
    case Nil
    then show ?case by simp
  next
    case (Cons row rest)
    then show ?case by (simp add: files_present_def)
  qed
  show "\<forall>row. cutadapt_cmd env row ! 2 = ''^'' @ forward_primer row
               \<and> cutadapt_cmd env row ! 4 = ''^'' @ reverse_primer row"
    by (simp add: cutadapt_cmd_def)
qed

theorem demultiplex_per_sample_witness:
  "demultiplex missing_A_env [sample_A, sample_B]
     = (Completed,
        [Warning ''A'',
         Command [''/usr/bin/cutadapt'', ''-g'', ''^GGCC'', ''-G'', ''^CATG'',
                  ''-o'', ''/data/out/1-demultiplex/B.R1.fastq'',
                  ''-p'', ''/data/out/1-demultiplex/B.R2.fastq'',
                  ''-j'', ''4'', ''--discard-untrimmed'', ''-e'', ''0.1'',
                  ''/data/raw/B_1.fq'', ''/data/raw/B_2.fq'']])"
proof -
  let ?env = "missing_A_env"
  have h: "\<forall>row \<in> set [sample_A, sample_B].
             files_present ?env row \<longrightarrow> exit_ok ?env (cutadapt_cmd ?env row)"
    by (simp add: missing_A_env_def demo_env_def)
  show ?thesis
    using demultiplex_per_sample [OF h, THEN conjunct1]
    by (simp add: missing_A_env_def demux_defs str_nat_4)
qed

section \<open>Claims about the working directory\<close>

lemma relabel_and_cluster_cwd:
  assumes "fst (relabel_and_cluster w output_dir p) = Returned"
  shows "cwd (snd (relabel_and_cluster w output_dir p)) = cwd p"
  using assms
  unfolding relabel_and_cluster_def Let_def
  by (auto simp: chdir_def attempt_def chdir_return_def split: if_splits option.splits prod.splits)

lemma plot_rarefaction_curve_cwd:
  assumes "fst (plot_rarefaction_curve w output_dir p) = Returned"
  shows "cwd (snd (plot_rarefaction_curve w output_dir p)) = cwd p"
  using assms
  unfolding plot_rarefaction_curve_def Let_def
  by (auto simp: chdir_def attempt_def chdir_return_def split: if_splits option.splits prod.splits)

lemma filter_low_abundance_otus_cwd:
  assumes "fst (filter_low_abundance_otus w output_dir p) = Returned"
  shows "cwd (snd (filter_low_abundance_otus w output_dir p)) = cwd p"
  using assms
  unfolding filter_low_abundance_otus_def Let_def
  by (auto simp: chdir_def attempt_def chdir_return_def
           split: if_splits option.splits prod.splits sum.splits)

lemmas world_defs = demo_world_def demo_process_def relabel_and_cluster_def
  plot_rarefaction_curve_def filter_low_abundance_otus_def chdir_def attempt_def
  chdir_return_def path_join_def

text \<open>
  Claim C7 says that each of the three stages restores the working directory on every exit
  path, the exceptional ones included. None of them does so when an exception propagates
  after the directory change: with a failing external command in \<^verbatim>\<open>relabel_and_cluster\<close> and
  in \<^verbatim>\<open>plot_rarefaction_curve\<close>, and with a failing write in \<^verbatim>\<open>filter_low_abundance_otus\<close>,
  the process is left in the \<open>7-OTU\<close> directory.
\<close>

theorem cwd_not_restored_counterexample:
  "relabel_and_cluster (demo_world [Run_command ''cmd_relabel'']) ''/data/out''
       (demo_process [''1'', ''0.97''])
     = (Raised, \<lparr>cwd = ''/data/out/7-OTU'', stdin = [''1'', ''0.97'']\<rparr>)
   \<and> plot_rarefaction_curve (demo_world [Run_command ''cmd_rarefy'']) ''/data/out''
       (demo_process [])
     = (Raised, \<lparr>cwd = ''/data/out/7-OTU'', stdin = []\<rparr>)
   \<and> filter_low_abundance_otus (demo_world [Write_file ''otutab.filter.txt'']) ''/data/out''
       (demo_process [''1'', ''50'', ''0.1''])
     = (Raised, \<lparr>cwd = ''/data/out/7-OTU'', stdin = []\<rparr>)
   \<and> cwd (demo_process []) = ''/home/user''"
  by (simp add: world_defs parse_defs eval_defs S1_table_def)

text \<open>
  Claim C7, amended. Whenever one of the three stages returns, by reaching the end of its
  body or by one of its early returns, the working directory is the one the stage was
  entered with.
\<close>

theorem cwd_restored_on_return:
  "(fst (relabel_and_cluster w output_dir p) = Returned \<longrightarrow>
      cwd (snd (relabel_and_cluster w output_dir p)) = cwd p)
   \<and> (fst (plot_rarefaction_curve w output_dir p) = Returned \<longrightarrow>
      cwd (snd (plot_rarefaction_curve w output_dir p)) = cwd p)
   \<and> (fst (filter_low_abundance_otus w output_dir p) = Returned \<longrightarrow>
      cwd (snd (filter_low_abundance_otus w output_dir p)) = cwd p)"
  by (simp add: relabel_and_cluster_cwd plot_rarefaction_curve_cwd filter_low_abundance_otus_cwd)

theorem cwd_restored_on_return_witness:
  "fst (relabel_and_cluster (demo_world []) ''/data/out'' (demo_process [''3'', ''1'', ''0.97''])) = Returned
   \<and> fst (plot_rarefaction_curve (demo_world []) ''/data/out'' (demo_process [''3'', ''1'', ''0.97''])) = Returned
   \<and> fst (filter_low_abundance_otus (demo_world []) ''/data/out'' (demo_process [''3'', ''1'', ''0.97''])) = Never
   \<and> fst (filter_low_abundance_otus (demo_world []) ''/data/out'' (demo_process [''2''])) = Returned
   \<and> cwd (snd (relabel_and_cluster (demo_world []) ''/data/out'' (demo_process [''3'', ''1'', ''0.97''])))
       = ''/home/user''
   \<and> cwd (snd (plot_rarefaction_curve (demo_world []) ''/data/out'' (demo_process [''3'', ''1'', ''0.97''])))
       = ''/home/user''
   \<and> cwd (snd (filter_low_abundance_otus (demo_world []) ''/data/out'' (demo_process [''2''])))
       = ''/home/user''"
proof -
  let ?w = "demo_world []" and ?p = "demo_process [''3'', ''1'', ''0.97'']"
  have a: "fst (relabel_and_cluster ?w ''/data/out'' ?p) = Returned"
    by (simp add: world_defs parse_defs)
  have b: "fst (plot_rarefaction_curve ?w ''/data/out'' ?p) = Returned"
    by (simp add: world_defs)
  have c: "fst (filter_low_abundance_otus ?w ''/data/out'' (demo_process [''2''])) = Returned"
    by (simp add: world_defs parse_defs)
  have n: "fst (filter_low_abundance_otus ?w ''/data/out'' ?p) = Never"
    by (simp add: world_defs parse_defs)
  have p: "cwd ?p = ''/home/user''" "cwd (demo_process [''2'']) = ''/home/user''"
    by (simp_all add: demo_process_def)
  note t1 = cwd_restored_on_return [of ?w "''/data/out''" ?p]
  note t2 = cwd_restored_on_return [of ?w "''/data/out''" "demo_process [''2'']"]
  from a b c n p t1 t2 show ?thesis by simp
qed

end
